theory Spec2Isabelle
  imports Complex_Main
begin

section \<open>Black-Scholes-Merton price and Greeks (python/bsm\_greeks.py)\<close>

text \<open>
  Python floats are modelled in two layers.

  The first layer, \<open>price_and_greeks_bsm\<close>, is the whole function in exact real
  arithmetic. It keeps the partiality that exact arithmetic shares with Python: a true
  division by zero raises ZeroDivisionError, \<open>math.log\<close> of a non-positive number and
  \<open>math.sqrt\<close> of a negative number raise ValueError. A raise is the \<open>Inl\<close> branch of
  the result, and \<open>py_bind\<close> sequences two steps: the second runs on the value of the
  first unless the first raised. This layer has no rounding, no overflow (Python raises
  OverflowError from \<open>math.exp\<close>, from \<open>sigma ** 2\<close> and from converting a huge
  \<open>theta_basis\<close>), no underflow to zero (which makes \<open>math.log\<close> or the division for
  gamma raise), no infinities and no NaN. What is proved on it about the code is
  therefore limited to the expressions a returned record carries and to raises that do
  not depend on the number format.

  The second layer is IEEE binary64 arithmetic: rounding to nearest with ties to even
  (\<open>rnd64\<close>), the values \<open>f64\<close> with infinities and NaN, and the multiplication,
  subtraction and comparison of Python floats. The lines of the source that compute the
  deltas and the prices are modelled in it, with the results of the library calls
  (\<open>math.exp\<close>, \<open>norm_cdf\<close>) as arguments. It decides the claims that depend on
  rounding or on non-finite values.
\<close>

datatype py_error = ZeroDivisionError | ValueError

definition py_truediv :: "real \<Rightarrow> real \<Rightarrow> py_error + real" where
  "py_truediv a b = (if b = 0 then Inl ZeroDivisionError else Inr (a / b))"

definition math_log :: "real \<Rightarrow> py_error + real" where
  "math_log x = (if x \<le> 0 then Inl ValueError else Inr (ln x))"

definition math_sqrt :: "real \<Rightarrow> py_error + real" where
  "math_sqrt x = (if x < 0 then Inl ValueError else Inr (sqrt x))"

definition py_bind :: "py_error + 'a \<Rightarrow> ('a \<Rightarrow> py_error + 'b) \<Rightarrow> py_error + 'b" where
  "py_bind m f = (case m of Inl e \<Rightarrow> Inl e | Inr v \<Rightarrow> f v)"

subsection \<open>The error function\<close>

text \<open>
  \<open>math.erf\<close> is the error function, \<open>erf x = 2 / sqrt pi * \<integral>\<^sub>0\<^sup>x exp (- t\<^sup>2) dt\<close>. It is
  defined here by its Maclaurin series
  \<open>2 / sqrt pi * (\<Sum>k. (-1)^k * x^(2k+1) / (k! * (2k+1)))\<close>, written as a power series
  with coefficient \<open>erf_coeff n\<close> at \<open>x^n\<close>.
\<close>

definition erf_coeff :: "nat \<Rightarrow> real" where
  "erf_coeff n =
     (if odd n then (- 1) ^ ((n - 1) div 2) / (fact ((n - 1) div 2) * real n) else 0)"

definition erf :: "real \<Rightarrow> real" where
  "erf x = 2 / sqrt pi * (\<Sum>n. erf_coeff n * x ^ n)"

subsection \<open>Normal distribution primitives\<close>

definition norm_cdf :: "real \<Rightarrow> real" where
  "norm_cdf x = 0.5 * (1 + erf (x / sqrt 2))"

definition norm_pdf :: "real \<Rightarrow> real" where
  "norm_pdf x = exp (- 0.5 * x * x) / sqrt (2 * pi)"

subsection \<open>Input and output records\<close>

record BSMInputs =
  S0 :: real
  K :: real
  T :: real
  sigma :: real
  r :: real
  q :: real
  opt_type :: string

record BSMOutputs =
  price :: real
  delta :: real
  gamma :: real
  vega_per_vol :: real
  vega_per_volpt :: real
  theta_per_year :: real
  theta_per_day :: real
  rho_per_1 :: real
  rho_per_bp :: real
  phi_per_1 :: real
  phi_per_bp :: real

subsection \<open>The valuation engine\<close>

text \<open>
  \<open>price_and_greeks_bsm\<close> follows the source line by line. Every \<open>math.sqrt\<close>,
  \<open>math.log\<close> and division by a variable quantity is a fallible step, in the order in
  which Python evaluates them; divisions by the literals \<open>10000.0\<close> and \<open>math.sqrt(2)\<close>
  cannot fail and are plain divisions. The first term of theta,
  \<open>-S0 * exp_qT * n_d1 * sigma / (2 * math.sqrt(T))\<close>, is the same expression in both
  branches of the source and is the first thing either branch can fail on; the model
  computes it once, as \<open>decay\<close>, just before the branch.
\<close>

definition price_and_greeks_bsm :: "BSMInputs \<Rightarrow> int \<Rightarrow> py_error + BSMOutputs" where
  "price_and_greeks_bsm inputs theta_basis =
    (let S0 = S0 inputs; K = K inputs; T = T inputs; sigma = sigma inputs;
         r = r inputs; q = q inputs;
         opt_type = opt_type inputs;
         T = (if T < 1 / 10 ^ 6 then 1 / 10 ^ 6 else T);
         sigma = (if sigma < 1 / 10 ^ 8 then 1 / 10 ^ 8 else sigma)
     in
     py_bind (py_truediv S0 K) (\<lambda>ratio.
     py_bind (math_log ratio) (\<lambda>log_ratio.
     py_bind (math_sqrt T) (\<lambda>sqrt_T.
     py_bind (py_truediv (log_ratio + (r - q + 0.5 * sigma ^ 2) * T) (sigma * sqrt_T)) (\<lambda>d1.
     py_bind (math_sqrt T) (\<lambda>sqrt_T.
     let d2 = d1 - sigma * sqrt_T;
         exp_qT = exp (- q * T);
         exp_rT = exp (- r * T);
         N_d1 = norm_cdf d1;
         N_d2 = norm_cdf d2;
         N_md1 = norm_cdf (- d1);
         N_md2 = norm_cdf (- d2);
         n_d1 = norm_pdf d1
     in
     py_bind (math_sqrt T) (\<lambda>sqrt_T.
     py_bind (py_truediv (- S0 * exp_qT * n_d1 * sigma) (2 * sqrt_T)) (\<lambda>decay.
     let (price, delta, theta, rho, phi) =
           (if opt_type = ''call'' then
              (S0 * exp_qT * N_d1 - K * exp_rT * N_d2,
               exp_qT * N_d1,
               decay + q * S0 * exp_qT * N_d1 - r * K * exp_rT * N_d2,
               K * T * exp_rT * N_d2,
               - T * S0 * exp_qT * N_d1)
            else
              (K * exp_rT * N_md2 - S0 * exp_qT * N_md1,
               exp_qT * N_d1 - exp_qT,
               decay - q * S0 * exp_qT * N_md1 + r * K * exp_rT * N_md2,
               - K * T * exp_rT * N_md2,
               T * S0 * exp_qT * N_md1))
     in
     py_bind (math_sqrt T) (\<lambda>sqrt_T.
     py_bind (py_truediv (exp_qT * n_d1) (S0 * sigma * sqrt_T)) (\<lambda>gamma.
     py_bind (math_sqrt T) (\<lambda>sqrt_T.
     let vega = S0 * exp_qT * n_d1 * sqrt_T;
         vega_per_volpt = vega * 0.01
     in
     py_bind (py_truediv theta (real_of_int theta_basis)) (\<lambda>theta_per_day.
     let rho_per_bp = rho / 10000;
         phi_per_bp = phi / 10000
     in
     Inr \<lparr>price = price, delta = delta, gamma = gamma,
          vega_per_vol = vega, vega_per_volpt = vega_per_volpt,
          theta_per_year = theta, theta_per_day = theta_per_day,
          rho_per_1 = rho, rho_per_bp = rho_per_bp,
          phi_per_1 = phi, phi_per_bp = phi_per_bp\<rparr>))))))))))))"

subsection \<open>The closed formulas of the specification\<close>

text \<open>
  The quantities the specification names, following its words: the two guards, the
  standardised moneyness terms \<open>d1\<close> and \<open>d2\<close>, and the table of call and put formulas
  with the shared quantities and the unit conversions. They are compared below with what
  \<open>price_and_greeks_bsm\<close> computes.
\<close>

definition clamped_T :: "real \<Rightarrow> real" where
  "clamped_T t = (if t < 1 / 10 ^ 6 then 1 / 10 ^ 6 else t)"

definition clamped_sigma :: "real \<Rightarrow> real" where
  "clamped_sigma v = (if v < 1 / 10 ^ 8 then 1 / 10 ^ 8 else v)"

definition spec_d1 :: "real \<Rightarrow> real \<Rightarrow> real \<Rightarrow> real \<Rightarrow> real \<Rightarrow> real \<Rightarrow> real" where
  "spec_d1 s k t v rate yield =
     (ln (s / k) + (rate - yield + 0.5 * v\<^sup>2) * t) / (v * sqrt t)"

definition spec_d2 :: "real \<Rightarrow> real \<Rightarrow> real \<Rightarrow> real \<Rightarrow> real \<Rightarrow> real \<Rightarrow> real" where
  "spec_d2 s k t v rate yield = spec_d1 s k t v rate yield - v * sqrt t"

definition eff_d1 :: "BSMInputs \<Rightarrow> real" where
  "eff_d1 inp = spec_d1 (S0 inp) (K inp) (clamped_T (T inp)) (clamped_sigma (sigma inp))
                  (r inp) (q inp)"

definition eff_d2 :: "BSMInputs \<Rightarrow> real" where
  "eff_d2 inp = spec_d2 (S0 inp) (K inp) (clamped_T (T inp)) (clamped_sigma (sigma inp))
                  (r inp) (q inp)"

definition bsm_closed_form :: "BSMInputs \<Rightarrow> int \<Rightarrow> BSMOutputs" where
  "bsm_closed_form inp basis =
    (let s = S0 inp; k = K inp; t = clamped_T (T inp); v = clamped_sigma (sigma inp);
         rate = r inp; yield = q inp;
         d1 = eff_d1 inp; d2 = eff_d2 inp;
         exp_qT = exp (- yield * t); exp_rT = exp (- rate * t);
         call = (opt_type inp = ''call'');
         price = (if call then s * exp_qT * norm_cdf d1 - k * exp_rT * norm_cdf d2
                  else k * exp_rT * norm_cdf (- d2) - s * exp_qT * norm_cdf (- d1));
         delta = (if call then exp_qT * norm_cdf d1 else exp_qT * norm_cdf d1 - exp_qT);
         theta = (if call
                  then - s * exp_qT * norm_pdf d1 * v / (2 * sqrt t)
                       + yield * s * exp_qT * norm_cdf d1 - rate * k * exp_rT * norm_cdf d2
                  else - s * exp_qT * norm_pdf d1 * v / (2 * sqrt t)
                       - yield * s * exp_qT * norm_cdf (- d1)
                       + rate * k * exp_rT * norm_cdf (- d2));
         rho = (if call then k * t * exp_rT * norm_cdf d2
                else - k * t * exp_rT * norm_cdf (- d2));
         phi = (if call then - t * s * exp_qT * norm_cdf d1
                else t * s * exp_qT * norm_cdf (- d1));
         vega = s * exp_qT * norm_pdf d1 * sqrt t
     in \<lparr>price = price, delta = delta,
         gamma = exp_qT * norm_pdf d1 / (s * v * sqrt t),
         vega_per_vol = vega, vega_per_volpt = vega * 0.01,
         theta_per_year = theta, theta_per_day = theta / real_of_int basis,
         rho_per_1 = rho, rho_per_bp = rho / 10000,
         phi_per_1 = phi, phi_per_bp = phi / 10000\<rparr>)"

subsection \<open>Auxiliary definitions\<close>

text \<open>
  \<open>cos_pow_int m\<close> is the antiderivative of \<open>cos x ^ m\<close> that vanishes at \<open>0\<close>, built by
  the reduction formula; its values at \<open>pi / 2\<close> are the Wallis integrals, which bound
  the Gaussian integral and hence \<open>erf\<close>.
\<close>

fun cos_pow_int :: "nat \<Rightarrow> real \<Rightarrow> real" where
  "cos_pow_int 0 x = x"
| "cos_pow_int (Suc 0) x = sin x"
| "cos_pow_int (Suc (Suc m)) x =
     cos x ^ Suc m * sin x / real (m + 2) + real (m + 1) / real (m + 2) * cos_pow_int m x"

text \<open>The inputs of the example at the end of the source file.\<close>

definition example_inputs :: BSMInputs where
  "example_inputs = \<lparr>S0 = 100, K = 100, T = 0.5, sigma = 0.20, r = 0.03, q = 0.01,
                      opt_type = ''call''\<rparr>"


subsection \<open>Binary64 arithmetic\<close>

text \<open>
  \<open>rne\<close> rounds a real to the nearest integer, ties to even. \<open>rnd64 x\<close> is the binary64
  number nearest to \<open>x\<close> (53-bit significand, gradual underflow below \<open>2 ^ - 1022\<close>,
  exponent unbounded above); \<open>round_f64\<close> adds the overflow to an infinity. A finite
  binary64 number is a fixed point of \<open>rnd64\<close> below \<open>2 ^ 1024\<close> in magnitude. The two
  zeros of binary64 are not distinguished.
\<close>

definition rne :: "real \<Rightarrow> int" where
  "rne x = (let n = \<lfloor>x\<rfloor> in
             if x - of_int n < 1 / 2 then n
             else if 1 / 2 < x - of_int n then n + 1
             else if even n then n else n + 1)"

definition rnd64 :: "real \<Rightarrow> real" where
  "rnd64 x = (let e = max \<lfloor>log 2 \<bar>x\<bar>\<rfloor> (- 1022); u = 2 powr (of_int e - 52)
              in of_int (rne (x / u)) * u)"

datatype f64 = Fin real | PInf | NInf | NaN

definition round_f64 :: "real \<Rightarrow> f64" where
  "round_f64 x = (let y = rnd64 x in
                   if 2 ^ 1024 \<le> y then PInf else if y \<le> - (2 ^ 1024) then NInf else Fin y)"

text \<open>
  Python's \<open>*\<close>, \<open>-\<close>, unary minus and \<open><=\<close> on floats: they never raise; an overflow
  gives an infinity, \<open>inf - inf\<close> and \<open>0 * inf\<close> give NaN, and a comparison with NaN is
  false.
\<close>

fun fmul :: "f64 \<Rightarrow> f64 \<Rightarrow> f64" where
  "fmul NaN _ = NaN"
| "fmul _ NaN = NaN"
| "fmul (Fin a) (Fin b) = round_f64 (a * b)"
| "fmul (Fin a) PInf = (if a = 0 then NaN else if 0 < a then PInf else NInf)"
| "fmul (Fin a) NInf = (if a = 0 then NaN else if 0 < a then NInf else PInf)"
| "fmul PInf (Fin b) = (if b = 0 then NaN else if 0 < b then PInf else NInf)"
| "fmul NInf (Fin b) = (if b = 0 then NaN else if 0 < b then NInf else PInf)"
| "fmul PInf PInf = PInf"
| "fmul PInf NInf = NInf"
| "fmul NInf PInf = NInf"
| "fmul NInf NInf = PInf"

fun fsub :: "f64 \<Rightarrow> f64 \<Rightarrow> f64" where
  "fsub NaN _ = NaN"
| "fsub _ NaN = NaN"
| "fsub (Fin a) (Fin b) = round_f64 (a - b)"
| "fsub (Fin a) PInf = NInf"
| "fsub (Fin a) NInf = PInf"
| "fsub PInf (Fin b) = PInf"
| "fsub NInf (Fin b) = NInf"
| "fsub PInf PInf = NaN"
| "fsub PInf NInf = PInf"
| "fsub NInf PInf = NInf"
| "fsub NInf NInf = NaN"

fun fneg :: "f64 \<Rightarrow> f64" where
  "fneg (Fin a) = Fin (- a)"
| "fneg PInf = NInf"
| "fneg NInf = PInf"
| "fneg NaN = NaN"

fun fle :: "f64 \<Rightarrow> f64 \<Rightarrow> bool" where
  "fle NaN _ = False"
| "fle _ NaN = False"
| "fle (Fin a) (Fin b) = (a \<le> b)"
| "fle (Fin a) PInf = True"
| "fle (Fin a) NInf = False"
| "fle PInf (Fin b) = False"
| "fle NInf (Fin b) = True"
| "fle PInf PInf = True"
| "fle PInf NInf = False"
| "fle NInf PInf = True"
| "fle NInf NInf = True"

text \<open>
  The delta and price lines of the source in binary64, as functions of the values the
  function holds at that point: \<open>delta = exp_qT * N_d1\<close> (call),
  \<open>delta = exp_qT * N_d1 - exp_qT\<close> (put),
  \<open>price = S0 * exp_qT * N_d1 - K * exp_rT * N_d2\<close> (call) and
  \<open>price = K * exp_rT * N_md2 - S0 * exp_qT * N_md1\<close> (put). Python evaluates a product
  of three factors from the left.
\<close>

definition delta_call_f64 :: "f64 \<Rightarrow> f64 \<Rightarrow> f64" where
  "delta_call_f64 exp_qT N_d1 = fmul exp_qT N_d1"

definition delta_put_f64 :: "f64 \<Rightarrow> f64 \<Rightarrow> f64" where
  "delta_put_f64 exp_qT N_d1 = fsub (fmul exp_qT N_d1) exp_qT"




section \<open>The error function: series, derivative, bounds\<close>

subsection \<open>Convergence of the series\<close>

lemma erf_term_sums:
  "(\<lambda>k. (- 1) ^ k * x ^ (2 * k + 1) / (fact k * real (2 * k + 1))) 
     sums (\<Sum>k. (- 1) ^ k * x ^ (2 * k + 1) / (fact k * real (2 * k + 1)))"
proof -
  have "summable (\<lambda>k. (x\<^sup>2) ^ k /\<^sub>R fact k)"
    using exp_converges [of "x\<^sup>2"] by (rule sums_summable)
  then have maj: "summable (\<lambda>k. \<bar>x\<bar> * ((x\<^sup>2) ^ k /\<^sub>R fact k))"
    by (rule summable_mult)
  have "summable (\<lambda>k. (- 1) ^ k * x ^ (2 * k + 1) / (fact k * real (2 * k + 1)))"
  proof (rule summable_comparison_test' [OF maj, of 0])
    fix k :: nat
    have "norm ((- 1) ^ k * x ^ (2 * k + 1) / (fact k * real (2 * k + 1)))
            = \<bar>x\<bar> * (x\<^sup>2) ^ k / fact k / real (2 * k + 1)"
      by (simp add: abs_mult power_abs power_mult power_even_abs)
    also have "\<dots> \<le> \<bar>x\<bar> * (x\<^sup>2) ^ k / fact k / 1"
      by (intro divide_left_mono) (auto intro!: divide_nonneg_pos mult_nonneg_nonneg)
    finally show "norm ((- 1) ^ k * x ^ (2 * k + 1) / (fact k * real (2 * k + 1)))
            \<le> \<bar>x\<bar> * ((x\<^sup>2) ^ k /\<^sub>R fact k)"
      by (simp add: field_simps)
  qed
  then show ?thesis by (rule summable_sums)
qed

lemma erf_coeff_sums:
  "(\<lambda>n. erf_coeff n * x ^ n)
     sums (\<Sum>k. (- 1) ^ k * x ^ (2 * k + 1) / (fact k * real (2 * k + 1)))"
proof -
  have eq: "(\<lambda>n. if even n then 0
                  else (- 1) ^ ((n - 1) div 2) * x ^ (2 * ((n - 1) div 2) + 1)
                         / (fact ((n - 1) div 2) * real (2 * ((n - 1) div 2) + 1)))
            = (\<lambda>n. erf_coeff n * x ^ n)"
  proof
    fix n :: nat
    show "(if even n then 0
           else (- 1) ^ ((n - 1) div 2) * x ^ (2 * ((n - 1) div 2) + 1)
                  / (fact ((n - 1) div 2) * real (2 * ((n - 1) div 2) + 1)))
          = erf_coeff n * x ^ n"
    proof (cases "even n")
      case True
      then show ?thesis by (simp add: erf_coeff_def)
    next
      case False
      then have n: "2 * ((n - 1) div 2) + 1 = n"
        by presburger
      show ?thesis using False by (simp add: erf_coeff_def n)
    qed
  qed
  show ?thesis using sums_if' [OF erf_term_sums [of x]] unfolding eq .
qed

lemma summable_erf_coeff: "summable (\<lambda>n. erf_coeff n * x ^ n)"
  using erf_coeff_sums by (rule sums_summable)

subsection \<open>Derivative, symmetry and monotonicity\<close>

lemma diffs_erf_coeff:
  "diffs erf_coeff n = (if even n then (- 1) ^ (n div 2) / fact (n div 2) else 0)"
  by (simp add: diffs_def erf_coeff_def)

lemma diffs_erf_coeff_sums:
  "(\<lambda>n. diffs erf_coeff n * x ^ n) sums exp (- x\<^sup>2)"
proof -
  have e: "(\<lambda>k. (- x\<^sup>2) ^ k /\<^sub>R fact k) sums exp (- x\<^sup>2)"
    by (rule exp_converges)
  have z: "(\<lambda>k::nat. 0::real) sums 0" by simp
  have eq: "(\<lambda>n. if even n then (- x\<^sup>2) ^ (n div 2) /\<^sub>R fact (n div 2) else 0)
              = (\<lambda>n. diffs erf_coeff n * x ^ n)"
  proof
    fix n :: nat
    show "(if even n then (- x\<^sup>2) ^ (n div 2) /\<^sub>R fact (n div 2) else 0)
            = diffs erf_coeff n * x ^ n"
    proof (cases "even n")
      case True
      then obtain k where k: "n = 2 * k" by (auto elim: evenE)
      have "(- x\<^sup>2) ^ k = (- 1) ^ k * x ^ (2 * k)"
        by (simp add: power_minus [of "x\<^sup>2"] power_mult)
      then show ?thesis using True k
        by (simp add: diffs_erf_coeff field_simps)
    next
      case False
      then show ?thesis by (simp add: diffs_erf_coeff)
    qed
  qed
  show ?thesis using sums_if [OF z e] unfolding eq by simp
qed

lemma DERIV_erf: "DERIV erf x :> 2 / sqrt pi * exp (- x\<^sup>2)"
proof -
  have "((\<lambda>x. \<Sum>n. erf_coeff n * x ^ n) has_field_derivative
          (\<Sum>n. diffs erf_coeff n * x ^ n)) (at x)"
    by (rule termdiffs_strong_converges_everywhere) (rule summable_erf_coeff)
  moreover have "(\<Sum>n. diffs erf_coeff n * x ^ n) = exp (- x\<^sup>2)"
    using diffs_erf_coeff_sums by (rule sums_unique [symmetric])
  ultimately have "((\<lambda>x. \<Sum>n. erf_coeff n * x ^ n) has_field_derivative exp (- x\<^sup>2)) (at x)"
    by simp
  then have "((\<lambda>x. 2 / sqrt pi * (\<Sum>n. erf_coeff n * x ^ n)) has_field_derivative
               2 / sqrt pi * exp (- x\<^sup>2)) (at x)"
    by (rule DERIV_cmult)
  then show ?thesis unfolding erf_def [abs_def] .
qed

lemma erf_zero: "erf 0 = 0"
proof -
  have "(\<lambda>n. erf_coeff n * 0 ^ n) = (\<lambda>n. 0)"
    by (rule ext) (simp add: erf_coeff_def power_0_left)
  then show ?thesis by (simp add: erf_def)
qed

lemma erf_minus: "erf (- x) = - erf x"
proof -
  have "erf_coeff n * (- x) ^ n = - (erf_coeff n * x ^ n)" for n
    by (cases "even n") (simp_all add: erf_coeff_def)
  then have "(\<Sum>n. erf_coeff n * (- x) ^ n) = (\<Sum>n. - (erf_coeff n * x ^ n))"
    by simp
  also have "\<dots> = - (\<Sum>n. erf_coeff n * x ^ n)"
    by (rule suminf_minus) (rule summable_erf_coeff)
  finally show ?thesis by (simp add: erf_def)
qed

lemma erf_mono:
  assumes "x \<le> y"
  shows "erf x \<le> erf y"
proof -
  have "\<exists>d. DERIV erf z :> d \<and> 0 \<le> d" for z
  proof -
    have "0 \<le> 2 / sqrt pi * exp (- z\<^sup>2)"
      by (intro mult_nonneg_nonneg divide_nonneg_nonneg) simp_all
    then show ?thesis using DERIV_erf [of z] by blast
  qed
  then show ?thesis
    using DERIV_nonneg_imp_nondecreasing [of x y erf] assms by simp
qed

lemma erf_nonneg: "0 \<le> x \<Longrightarrow> 0 \<le> erf x"
  using erf_mono [of 0 x] by (simp add: erf_zero)

subsection \<open>Wallis integrals\<close>

lemma cos_pow_step_algebra:
  fixes c s p n :: real
  assumes s: "s * s = 1 - c * c" and n: "0 \<le> n"
  shows "((n + 1) * (- s * p) * s + c * (c * p)) / (n + 2) + (n + 1) / (n + 2) * p = c * (c * p)"
proof -
  have "(n + 1) * (- s * p) * s = - ((n + 1) * p) * (s * s)"
    by (simp add: mult_ac)
  also have "\<dots> = - ((n + 1) * p) * (1 - c * c)"
    by (simp only: s)
  finally have "(n + 1) * (- s * p) * s + c * (c * p) + (n + 1) * p = (n + 2) * (c * (c * p))"
    by (simp add: algebra_simps)
  moreover have "((n + 1) * (- s * p) * s + c * (c * p)) / (n + 2) + (n + 1) / (n + 2) * p
      = ((n + 1) * (- s * p) * s + c * (c * p) + (n + 1) * p) / (n + 2)"
    by (simp only: times_divide_eq_left add_divide_distrib [symmetric])
  ultimately show ?thesis using n by simp
qed

lemma DERIV_cos_pow_int: "DERIV (cos_pow_int m) x :> cos x ^ m"
proof (induction m x rule: cos_pow_int.induct)
  case (1 x)
  have "cos_pow_int 0 = (\<lambda>x. x)" by (rule ext) simp
  then show ?case by simp
next
  case (2 x)
  have "cos_pow_int (Suc 0) = sin" by (rule ext) simp
  then show ?case by (auto intro!: derivative_eq_intros)
next
  case (3 m x)
  have f: "cos_pow_int (Suc (Suc m)) =
        (\<lambda>x. cos x ^ Suc m * sin x / real (m + 2) + real (m + 1) / real (m + 2) * cos_pow_int m x)"
    by (rule ext) simp
  have "sin x * sin x = 1 - cos x * cos x"
    using sin_cos_squared_add [of x] by (simp add: power2_eq_square algebra_simps)
  note s = this of_nat_0_le_iff [of m]
  have c: "((\<lambda>x. cos x ^ Suc m) has_real_derivative
              real (Suc m) * (- sin x * cos x ^ m)) (at x)"
    using DERIV_power [OF DERIV_cos [of x], of "Suc m"] by (simp del: power_Suc)
  let ?D = "(real (Suc m) * (- sin x * cos x ^ m) * sin x + cos x * cos x ^ Suc m) / real (m + 2)
              + real (m + 1) / real (m + 2) * cos x ^ m"
  have "((\<lambda>x. cos x ^ Suc m * sin x / real (m + 2)
              + real (m + 1) / real (m + 2) * cos_pow_int m x) has_real_derivative ?D) (at x)"
    by (intro DERIV_add DERIV_cdivide DERIV_mult c DERIV_sin DERIV_cmult "3.IH")
  moreover have "?D = cos x ^ Suc (Suc m)"
    using cos_pow_step_algebra [OF s, of "cos x ^ m"]
    by (simp add: add.commute mult.assoc)
  ultimately show ?case unfolding f by simp
qed

lemma cos_pow_int_zero: "cos_pow_int m 0 = 0"
  by (induction m "0::real" rule: cos_pow_int.induct) simp_all

lemma cos_pow_int_half_pi_step:
  "cos_pow_int (Suc (Suc m)) (pi / 2) = real (m + 1) / real (m + 2) * cos_pow_int m (pi / 2)"
  by simp

lemma cos_pow_int_mono:
  assumes "0 \<le> x" "x \<le> y" "y \<le> pi / 2"
  shows "cos_pow_int m x \<le> cos_pow_int m y"
proof -
  have "\<exists>d. DERIV (cos_pow_int m) z :> d \<and> 0 \<le> d" if "x \<le> z" "z \<le> y" for z
  proof -
    have "0 \<le> cos z" using that assms by (intro cos_ge_zero) simp_all
    then have "0 \<le> cos z ^ m" by simp
    then show ?thesis using DERIV_cos_pow_int [of m z] by blast
  qed
  then show ?thesis
    using DERIV_nonneg_imp_nondecreasing [of x y "cos_pow_int m"] assms by simp
qed

lemma cos_pow_int_half_pi_pos: "0 < cos_pow_int m (pi / 2)"
  by (induction m "pi / 2 :: real" rule: cos_pow_int.induct) simp_all

lemma wallis_product: "real (m + 1) * cos_pow_int m (pi / 2) * cos_pow_int (Suc m) (pi / 2) = pi / 2"
proof (induction m)
  case 0
  show ?case by simp
next
  case (Suc m)
  have "real (Suc m + 1) * cos_pow_int (Suc m) (pi / 2) * cos_pow_int (Suc (Suc m)) (pi / 2)
      = real (m + 1) * cos_pow_int m (pi / 2) * cos_pow_int (Suc m) (pi / 2)"
    unfolding cos_pow_int_half_pi_step by (simp add: field_simps)
  also have "\<dots> = pi / 2" by (rule Suc.IH)
  finally show ?case .
qed

lemma cos_pow_int_half_pi_antimono:
  "cos_pow_int (Suc m) (pi / 2) \<le> cos_pow_int m (pi / 2)"
proof -
  let ?f = "\<lambda>x. cos_pow_int m x - cos_pow_int (Suc m) x"
  have "\<exists>d. DERIV ?f z :> d \<and> 0 \<le> d" if "0 \<le> z" "z \<le> pi / 2" for z
  proof -
    have c: "0 \<le> cos z" using that by (intro cos_ge_zero) simp_all
    have "DERIV ?f z :> cos z ^ m - cos z ^ Suc m"
      by (intro DERIV_diff DERIV_cos_pow_int)
    moreover have "cos z ^ Suc m \<le> cos z ^ m"
      using c cos_le_one [of z] by (simp add: mult_left_le_one_le)
    ultimately show ?thesis by (intro exI [of _ "cos z ^ m - cos z ^ Suc m"]) simp
  qed
  then have "?f 0 \<le> ?f (pi / 2)"
    using DERIV_nonneg_imp_nondecreasing [of 0 "pi / 2" ?f] by simp
  then show ?thesis by (simp add: cos_pow_int_zero)
qed

lemma wallis_even_bound:
  assumes "0 < k"
  shows "(cos_pow_int (2 * k) (pi / 2))\<^sup>2 \<le> pi / (4 * real k)"
proof -
  obtain j where j: "2 * k = Suc j" using assms by (cases "2 * k") auto
  have "real (j + 1) * cos_pow_int j (pi / 2) * cos_pow_int (Suc j) (pi / 2) = pi / 2"
    by (rule wallis_product)
  moreover have "real (j + 1) = 2 * real k"
    using arg_cong [OF j, of real] by simp
  ultimately have "2 * real k * (cos_pow_int j (pi / 2) * cos_pow_int (Suc j) (pi / 2)) = pi / 2"
    by (simp add: mult.assoc)
  then have p: "cos_pow_int j (pi / 2) * cos_pow_int (Suc j) (pi / 2) = pi / (4 * real k)"
    using assms by (simp add: field_simps)
  have "cos_pow_int (Suc j) (pi / 2) * cos_pow_int (Suc j) (pi / 2)
          \<le> cos_pow_int j (pi / 2) * cos_pow_int (Suc j) (pi / 2)"
    using cos_pow_int_half_pi_antimono [of j] cos_pow_int_half_pi_pos [of "Suc j"]
    by (intro mult_right_mono) simp_all
  then show ?thesis unfolding j p by (simp add: power2_eq_square)
qed

subsection \<open>The bound \<open>erf x \<le> 1\<close>\<close>

text \<open>
  For \<open>x \<ge> 0\<close> and every \<open>k > 0\<close>, \<open>exp (- t\<^sup>2) \<le> (1 + t\<^sup>2 / (k + 1)) ^ - (k + 1)\<close>, whose
  antiderivative is \<open>sqrt (k + 1) * cos_pow_int (2 * k) (arctan (t / sqrt (k + 1)))\<close>. With
  the Wallis bound this gives \<open>erf x \<le> sqrt (1 + 1 / k)\<close> for every \<open>k\<close>, hence \<open>erf x \<le> 1\<close>.
\<close>

lemma exp_minus_square_le:
  assumes "0 < n"
  shows "exp (- x\<^sup>2) \<le> 1 / (1 + x\<^sup>2 / real n) ^ n"
proof -
  have pos: "0 < 1 + x\<^sup>2 / real n"
    by (rule add_pos_nonneg) simp_all
  have "(1 + x\<^sup>2 / real n) ^ n \<le> exp (x\<^sup>2 / real n) ^ n"
    using pos by (intro power_mono) simp_all
  also have "\<dots> = exp (real n * (x\<^sup>2 / real n))"
    by (rule exp_of_nat_mult [symmetric])
  also have "\<dots> = exp (x\<^sup>2)"
    using assms by simp
  finally have "(1 + x\<^sup>2 / real n) ^ n \<le> exp (x\<^sup>2)" .
  moreover have "0 < (1 + x\<^sup>2 / real n) ^ n"
    using pos by simp
  ultimately have "1 / exp (x\<^sup>2) \<le> 1 / (1 + x\<^sup>2 / real n) ^ n"
    by (intro divide_left_mono) simp_all
  then show ?thesis by (simp add: exp_minus inverse_eq_divide)
qed

lemma cos_arctan_power:
  "cos (arctan u) ^ (2 * k) * inverse (1 + u\<^sup>2) = 1 / (1 + u\<^sup>2) ^ Suc k"
proof -
  have pos: "0 < 1 + u\<^sup>2" by (rule add_pos_nonneg) simp_all
  have "cos (arctan u) ^ (2 * k) = ((1 / sqrt (1 + u\<^sup>2))\<^sup>2) ^ k"
    by (simp add: cos_arctan power_mult)
  also have "(1 / sqrt (1 + u\<^sup>2))\<^sup>2 = 1 / (1 + u\<^sup>2)"
    using pos by (simp add: power_divide)
  finally show ?thesis
    by (simp add: power_divide inverse_eq_divide)
qed

lemma DERIV_cos_pow_int_arctan:
  assumes c: "0 < c"
  shows "((\<lambda>x. cos_pow_int (2 * k) (arctan (x / c))) has_real_derivative
           1 / (1 + (x / c)\<^sup>2) ^ Suc k / c) (at x)"
proof -
  have a: "((\<lambda>x. arctan (x / c)) has_real_derivative inverse (1 + (x / c)\<^sup>2) * (1 / c)) (at x)"
    using c by (auto intro!: derivative_eq_intros)
  have "((\<lambda>x. cos_pow_int (2 * k) (arctan (x / c))) has_real_derivative
           cos (arctan (x / c)) ^ (2 * k) * (inverse (1 + (x / c)\<^sup>2) * (1 / c))) (at x)"
    by (rule DERIV_chain' [OF a DERIV_cos_pow_int])
  moreover have "cos (arctan (x / c)) ^ (2 * k) * (inverse (1 + (x / c)\<^sup>2) * (1 / c))
      = 1 / (1 + (x / c)\<^sup>2) ^ Suc k / c"
    using cos_arctan_power [of "x / c" k] by (simp only: mult.assoc [symmetric]) simp
  ultimately show ?thesis by simp
qed

lemma erf_le_wallis:
  assumes x: "0 \<le> x" and k: "0 < k"
  shows "erf x \<le> 2 / sqrt pi * (sqrt (real (Suc k)) * cos_pow_int (2 * k) (pi / 2))"
proof -
  let ?c = "sqrt (real (Suc k))"
  let ?h = "\<lambda>x. 2 / sqrt pi * (?c * cos_pow_int (2 * k) (arctan (x / ?c))) - erf x"
  have c: "0 < ?c" by simp
  have "\<exists>d. DERIV ?h z :> d \<and> 0 \<le> d" for z
  proof -
    let ?d = "2 / sqrt pi * (?c * (1 / (1 + (z / ?c)\<^sup>2) ^ Suc k / ?c))
               - 2 / sqrt pi * exp (- z\<^sup>2)"
    have "DERIV ?h z :> ?d"
      by (intro DERIV_diff DERIV_cmult DERIV_cos_pow_int_arctan [OF c] DERIV_erf)
    moreover have "0 \<le> ?d"
    proof -
      have "(z / ?c)\<^sup>2 = z\<^sup>2 / real (Suc k)"
        by (simp add: power_divide)
      then have "?c * (1 / (1 + (z / ?c)\<^sup>2) ^ Suc k / ?c)
                   = 1 / (1 + z\<^sup>2 / real (Suc k)) ^ Suc k"
        using c by simp
      moreover have "exp (- z\<^sup>2) \<le> 1 / (1 + z\<^sup>2 / real (Suc k)) ^ Suc k"
        by (rule exp_minus_square_le) simp
      ultimately have "exp (- z\<^sup>2) \<le> ?c * (1 / (1 + (z / ?c)\<^sup>2) ^ Suc k / ?c)"
        by simp
      then have "2 / sqrt pi * exp (- z\<^sup>2)
                   \<le> 2 / sqrt pi * (?c * (1 / (1 + (z / ?c)\<^sup>2) ^ Suc k / ?c))"
        by (intro mult_left_mono) simp_all
      then show ?thesis by simp
    qed
    ultimately show ?thesis by blast
  qed
  then have "?h 0 \<le> ?h x"
    using DERIV_nonneg_imp_nondecreasing [of 0 x ?h] x by simp
  then have "erf x \<le> 2 / sqrt pi * (?c * cos_pow_int (2 * k) (arctan (x / ?c)))"
    by (simp add: cos_pow_int_zero erf_zero)
  also have "\<dots> \<le> 2 / sqrt pi * (?c * cos_pow_int (2 * k) (pi / 2))"
  proof -
    have "0 \<le> arctan (x / ?c)" using x by simp
    moreover have "arctan (x / ?c) \<le> pi / 2"
      using arctan_ubound [of "x / ?c"] by simp
    ultimately have "cos_pow_int (2 * k) (arctan (x / ?c)) \<le> cos_pow_int (2 * k) (pi / 2)"
      by (intro cos_pow_int_mono) simp_all
    then show ?thesis
      by (intro mult_left_mono) simp_all
  qed
  finally show ?thesis .
qed

lemma erf_le_sqrt:
  assumes x: "0 \<le> x" and k: "0 < k"
  shows "erf x \<le> sqrt (1 + 1 / real k)"
proof -
  let ?w = "cos_pow_int (2 * k) (pi / 2)"
  have w: "?w \<le> sqrt (pi / (4 * real k))"
    using wallis_even_bound [OF k] by (rule real_le_rsqrt)
  have "erf x \<le> 2 / sqrt pi * (sqrt (real (Suc k)) * ?w)"
    by (rule erf_le_wallis [OF x k])
  also have "\<dots> \<le> 2 / sqrt pi * (sqrt (real (Suc k)) * sqrt (pi / (4 * real k)))"
    using w by (intro mult_left_mono) simp_all
  also have "\<dots> = sqrt (real (Suc k) / real k)"
    using k by (simp add: real_sqrt_mult real_sqrt_divide)
  also have "real (Suc k) / real k = 1 + 1 / real k"
    using k by (simp add: field_simps)
  finally show ?thesis .
qed

lemma erf_le_one_nonneg:
  assumes x: "0 \<le> x"
  shows "erf x \<le> 1"
proof (rule ccontr)
  assume "\<not> erf x \<le> 1"
  then have g: "1 < erf x" by simp
  then have "0 < (erf x)\<^sup>2 - 1" by simp
  then obtain k :: nat where k: "0 < k" and lt: "inverse (real k) < (erf x)\<^sup>2 - 1"
    using ex_inverse_of_nat_less by blast
  have "1 + 1 / real k < (erf x)\<^sup>2"
    using lt by (simp add: inverse_eq_divide)
  then have "sqrt (1 + 1 / real k) < erf x"
    using g by (intro real_less_lsqrt) simp_all
  then show False using erf_le_sqrt [OF x k] by simp
qed

lemma erf_bounds: "- 1 \<le> erf x \<and> erf x \<le> 1"
proof (cases "0 \<le> x")
  case True
  then show ?thesis using erf_le_one_nonneg [of x] erf_nonneg [of x] by simp
next
  case False
  then have "0 \<le> - x" by simp
  then show ?thesis
    using erf_le_one_nonneg [of "- x"] erf_nonneg [of "- x"] by (simp add: erf_minus)
qed

text \<open>
  The series defines the error function: it vanishes at \<open>0\<close> and its derivative is
  \<open>2 / sqrt pi * exp (- x\<^sup>2)\<close>, which determines it.
\<close>

lemma erf_characterisation:
  "erf 0 = 0 \<and> (erf has_real_derivative 2 / sqrt pi * exp (- x\<^sup>2)) (at x)"
  using erf_zero DERIV_erf [of x] by simp

section \<open>Normal distribution primitives\<close>

lemma norm_cdf_bounds: "0 \<le> norm_cdf x \<and> norm_cdf x \<le> 1"
  using erf_bounds [of "x / sqrt 2"] by (simp add: norm_cdf_def)


lemma norm_pdf_pos: "0 < norm_pdf x"
  by (simp add: norm_pdf_def)





section \<open>Sensitivity of the call price to spot and strike\<close>









section \<open>The engine computes the closed formulas\<close>

text \<open>
  The lemmas of this section are about the exact-arithmetic layer. Where they say that a
  record is returned, the floating-point code may still raise through an overflow or an
  underflow; the claims below use them for the records that are returned and for the
  raises at \<open>S0 / K\<close>, \<open>math.log\<close> and \<open>theta / theta_basis\<close>.
\<close>

lemma sqrt_clamped_T_pos: "0 < sqrt (clamped_T t)"
  by (simp add: clamped_T_def)

lemma clamped_T_pos: "0 < clamped_T t"
  by (simp add: clamped_T_def)

lemma clamped_sigma_pos: "0 < clamped_sigma v"
  by (simp add: clamped_sigma_def) 

lemma bsm_raises:
  "K inp = 0 \<Longrightarrow> price_and_greeks_bsm inp tb = Inl ZeroDivisionError"
  "K inp \<noteq> 0 \<Longrightarrow> S0 inp / K inp \<le> 0 \<Longrightarrow> price_and_greeks_bsm inp tb = Inl ValueError"
  by (simp_all add: price_and_greeks_bsm_def Let_def py_bind_def py_truediv_def math_log_def)

lemma bsm_steps:
  assumes k: "K inp \<noteq> 0" and pos: "0 < S0 inp / K inp"
  shows "price_and_greeks_bsm inp tb =
           (if tb = 0 then Inl ZeroDivisionError else Inr (bsm_closed_form inp tb))"
proof -
  have s: "S0 inp \<noteq> 0" using pos by auto
  have t: "\<not> clamped_T (T inp) < 0" "sqrt (clamped_T (T inp)) \<noteq> 0"
    using clamped_T_pos [of "T inp"] by simp_all
  have v: "clamped_sigma (sigma inp) \<noteq> 0"
    using clamped_sigma_pos [of "sigma inp"] by simp
  have l: "\<not> S0 inp / K inp \<le> 0" using pos by simp
  show ?thesis
    unfolding price_and_greeks_bsm_def bsm_closed_form_def eff_d1_def eff_d2_def
      spec_d1_def spec_d2_def Let_def
      clamped_T_def [symmetric] clamped_sigma_def [symmetric]
    using k s t v l
    by (simp add: py_bind_def py_truediv_def math_log_def math_sqrt_def)
qed

lemma bsm_returns:
  assumes "K inp \<noteq> 0" "0 < S0 inp / K inp" "tb \<noteq> 0"
  shows "price_and_greeks_bsm inp tb = Inr (bsm_closed_form inp tb)"
  using bsm_steps [OF assms(1,2), of tb] assms(3) by simp

lemma bsm_returns_valid:
  assumes "0 < S0 inp" "0 < K inp" "tb \<noteq> 0"
  shows "price_and_greeks_bsm inp tb = Inr (bsm_closed_form inp tb)"
  using assms by (intro bsm_returns) simp_all

lemma bsm_cases:
  "price_and_greeks_bsm inp tb =
     (if K inp = 0 then Inl ZeroDivisionError
      else if S0 inp / K inp \<le> 0 then Inl ValueError
      else if tb = 0 then Inl ZeroDivisionError
      else Inr (bsm_closed_form inp tb))"
  using bsm_raises [of inp tb] bsm_steps [of inp tb] by (simp add: not_le)

lemma bsm_InrD:
  assumes "price_and_greeks_bsm inp tb = Inr out"
  shows "out = bsm_closed_form inp tb" "K inp \<noteq> 0" "0 < S0 inp / K inp" "tb \<noteq> 0"
  using assms unfolding bsm_cases [of inp tb] by (simp_all split: if_splits)

lemma example_returns:
  "price_and_greeks_bsm (example_inputs\<lparr>opt_type := ot\<rparr>) 365
     = Inr (bsm_closed_form (example_inputs\<lparr>opt_type := ot\<rparr>) 365)"
  by (rule bsm_returns_valid) (simp_all add: example_inputs_def)



lemma clamped_sigma_unfold: "(if v < 1 / 10 ^ 8 then 1 / 10 ^ 8 else v) = clamped_sigma v"
  by (simp add: clamped_sigma_def)

lemma bsm_closed_form_T_floor:
  assumes "t < 1 / 10 ^ 6"
  shows "bsm_closed_form (inp\<lparr>T := t\<rparr>) tb = bsm_closed_form (inp\<lparr>T := 1 / 10 ^ 6\<rparr>) tb"
proof -
  have "clamped_T t = clamped_T (1 / 10 ^ 6)" using assms by (simp add: clamped_T_def)
  then show ?thesis
    by (simp add: bsm_closed_form_def eff_d1_def eff_d2_def Let_def)
qed

lemma bsm_closed_form_sigma_floor:
  assumes "v < 1 / 10 ^ 8"
  shows "bsm_closed_form (inp\<lparr>sigma := v\<rparr>) tb
           = bsm_closed_form (inp\<lparr>sigma := 1 / 10 ^ 8\<rparr>) tb"
proof -
  have "clamped_sigma v = clamped_sigma (1 / 10 ^ 8)"
    using assms by (simp add: clamped_sigma_def)
  then show ?thesis
    by (simp add: bsm_closed_form_def eff_d1_def eff_d2_def Let_def)
qed


section \<open>Binary64 rounding\<close>

lemma rne_eqI:
  assumes "\<bar>x - of_int n\<bar> < 1 / 2"
  shows "rne x = n"
proof -
  have "\<lfloor>x\<rfloor> = n \<or> \<lfloor>x\<rfloor> = n - 1" using assms by linarith
  then show ?thesis
  proof
    assume f: "\<lfloor>x\<rfloor> = n"
    then have "x - of_int n < 1 / 2" using assms by linarith
    then show ?thesis by (simp add: rne_def f)
  next
    assume f: "\<lfloor>x\<rfloor> = n - 1"
    have "real_of_int (n - 1) = of_int n - 1" by simp
    then have "1 / 2 < x - of_int (n - 1)" using assms by linarith
    then show ?thesis by (simp add: rne_def f)
  qed
qed

lemma rne_of_int: "rne (of_int n) = n"
  by (rule rne_eqI) simp

lemma rne_bounds: "of_int (rne x) \<le> x + 1 / 2 \<and> x - 1 / 2 \<le> of_int (rne x)"
  unfolding rne_def Let_def by (auto; linarith)

lemma rne_mono:
  assumes "x \<le> y"
  shows "rne x \<le> rne y"
proof -
  have fl: "\<lfloor>x\<rfloor> \<le> \<lfloor>y\<rfloor>" using assms by (rule floor_mono)
  have ux: "rne x \<le> \<lfloor>x\<rfloor> + 1" unfolding rne_def Let_def by auto
  have ly: "\<lfloor>y\<rfloor> \<le> rne y" unfolding rne_def Let_def by auto
  show ?thesis
  proof (cases "\<lfloor>x\<rfloor> = \<lfloor>y\<rfloor>")
    case False
    then have "\<lfloor>x\<rfloor> + 1 \<le> \<lfloor>y\<rfloor>" using fl by simp
    then show ?thesis using ux ly by linarith
  next
    case True
    then show ?thesis using assms unfolding rne_def Let_def by auto
  qed
qed

lemma rne_minus: "rne (- x) = - rne x"
proof (cases "x = of_int \<lfloor>x\<rfloor>")
  case True
  then obtain n where "x = of_int n" by metis
  then show ?thesis using rne_of_int [of n] rne_of_int [of "- n"] by simp
next
  case False
  then have lt: "of_int \<lfloor>x\<rfloor> < x" using of_int_floor_le [of x] by linarith
  have fm: "\<lfloor>- x\<rfloor> = - \<lfloor>x\<rfloor> - 1" using lt by linarith
  show ?thesis using lt unfolding rne_def Let_def fm by (auto; linarith)
qed

lemma rnd64_zero: "rnd64 0 = 0"
  by (simp add: rnd64_def Let_def rne_of_int [of 0, simplified])

lemma rnd64_minus: "rnd64 (- x) = - rnd64 x"
  by (simp add: rnd64_def Let_def rne_minus)

lemma rnd64_nonneg:
  assumes "0 \<le> x"
  shows "0 \<le> rnd64 x"
proof -
  have "rne 0 \<le> rne (x / 2 powr (of_int (max \<lfloor>log 2 \<bar>x\<bar>\<rfloor> (- 1022)) - 52))"
    using assms by (intro rne_mono) simp
  then show ?thesis
    using rne_of_int [of 0] by (simp add: rnd64_def Let_def)
qed

lemma powr_scale:
  fixes a :: real
  shows "(2::real) powr 53 * 2 powr (a - 52) = 2 powr (a + 1)"
    and "(2::real) powr 52 * 2 powr (a - 52) = 2 powr a"
    and "(2::real) powr (a + 1) / 2 powr (a - 52) = 2 powr 53"
    and "(2::real) powr a / 2 powr (a - 52) = 2 powr 52"
proof -
  have e: "53 + (a - 52) = a + 1" "52 + (a - 52) = a" "(a + 1) - (a - 52) = 53" "a - (a - 52) = 52"
    by simp_all
  show "(2::real) powr 53 * 2 powr (a - 52) = 2 powr (a + 1)"
    using powr_add [of 2 53 "a - 52", symmetric] by (simp only: e)
  show "(2::real) powr 52 * 2 powr (a - 52) = 2 powr a"
    using powr_add [of 2 52 "a - 52", symmetric] by (simp only: e)
  show "(2::real) powr (a + 1) / 2 powr (a - 52) = 2 powr 53"
    using powr_diff [of 2 "a + 1" "a - 52", symmetric] by (simp only: e)
  show "(2::real) powr a / 2 powr (a - 52) = 2 powr 52"
    using powr_diff [of 2 a "a - 52", symmetric] by (simp only: e)
qed

lemma rnd64_mono_pos:
  assumes x: "0 < x" and xy: "x \<le> y"
  shows "rnd64 x \<le> rnd64 y"
proof -
  let ?fx = "\<lfloor>log 2 x\<rfloor>" and ?fy = "\<lfloor>log 2 y\<rfloor>"
  let ?ex = "max ?fx (- 1022)" and ?ey = "max ?fy (- 1022)"
  let ?ux = "(2::real) powr (of_int ?ex - 52)" and ?uy = "(2::real) powr (of_int ?ey - 52)"
  have y: "0 < y" using x xy by simp
  have rx: "rnd64 x = of_int (rne (x / ?ux)) * ?ux"
    using x by (simp add: rnd64_def Let_def)
  have ry: "rnd64 y = of_int (rne (y / ?uy)) * ?uy"
    using y by (simp add: rnd64_def Let_def)
  have "log 2 x \<le> log 2 y" using x xy by simp
  then have "?fx \<le> ?fy" by (rule floor_mono)
  then have le: "?ex \<le> ?ey" by simp
  show ?thesis
  proof (cases "?ex = ?ey")
    case True
    have "rne (x / ?uy) \<le> rne (y / ?uy)"
      using xy by (intro rne_mono divide_right_mono) simp_all
    then have "of_int (rne (x / ?uy)) * ?uy \<le> of_int (rne (y / ?uy)) * ?uy"
      by (intro mult_right_mono) simp_all
    then show ?thesis unfolding rx ry True .
  next
    case False
    then have lt: "?ex + 1 \<le> ?ey" using le by simp
    then have ey: "?ey = ?fy" by simp
    have "x < 2 powr (of_int ?fx + 1)"
      using x floor_log_eq_powr_iff [of x 2 ?fx] by simp
    also have "\<dots> \<le> 2 powr (of_int ?ex + 1)" by simp
    finally have "x / ?ux \<le> 2 powr (of_int ?ex + 1) / ?ux"
      by (intro divide_right_mono) simp_all
    also have "2 powr (of_int ?ex + 1) / ?ux = 2 powr 53"
      by (rule powr_scale)
    also have "(2::real) powr 53 = real_of_int (2 ^ 53)" by simp
    finally have "rne (x / ?ux) \<le> rne (real_of_int (2 ^ 53))" by (rule rne_mono)
    then have "of_int (rne (x / ?ux)) * ?ux \<le> real_of_int (2 ^ 53) * ?ux"
      unfolding rne_of_int by (intro mult_right_mono) simp_all
    also have "real_of_int (2 ^ 53) * ?ux = 2 powr 53 * ?ux" by simp
    also have "\<dots> = 2 powr (of_int ?ex + 1)"
      by (rule powr_scale)
    finally have ux: "rnd64 x \<le> 2 powr (of_int ?ex + 1)" unfolding rx .
    have "2 powr (of_int ?fy) \<le> y"
      using y floor_log_eq_powr_iff [of y 2 ?fy] by simp
    then have "2 powr (of_int ?ey) / ?uy \<le> y / ?uy"
      unfolding ey by (intro divide_right_mono) simp_all
    moreover have "2 powr (of_int ?ey) / ?uy = real_of_int (2 ^ 52)"
      unfolding powr_scale by simp
    ultimately have "rne (real_of_int (2 ^ 52)) \<le> rne (y / ?uy)" by (intro rne_mono) simp
    then have s1: "real_of_int (2 ^ 52) * ?uy \<le> of_int (rne (y / ?uy)) * ?uy"
      unfolding rne_of_int by (intro mult_right_mono) simp_all
    have "2 powr (of_int ?ey) = 2 powr 52 * ?uy"
      by (rule powr_scale(2) [symmetric])
    also have "\<dots> = real_of_int (2 ^ 52) * ?uy" by simp
    also have "\<dots> \<le> of_int (rne (y / ?uy)) * ?uy" by (rule s1)
    finally have uy: "2 powr (of_int ?ey) \<le> rnd64 y" unfolding ry .
    have "(2::real) powr (of_int ?ex + 1) \<le> 2 powr (of_int ?ey)"
      using lt by simp
    then show ?thesis using ux uy by linarith
  qed
qed

lemma rnd64_mono:
  assumes "x \<le> y"
  shows "rnd64 x \<le> rnd64 y"
proof -
  consider "0 < x" | "x \<le> 0" "0 \<le> y" | "y < 0" by linarith
  then show ?thesis
  proof cases
    case 1
    then show ?thesis using assms by (rule rnd64_mono_pos)
  next
    case 2
    have "0 \<le> rnd64 (- x)" using 2 by (intro rnd64_nonneg) simp
    then have "rnd64 x \<le> 0" by (simp add: rnd64_minus)
    moreover have "0 \<le> rnd64 y" using 2 by (intro rnd64_nonneg)
    ultimately show ?thesis by simp
  next
    case 3
    have "rnd64 (- y) \<le> rnd64 (- x)" using 3 assms by (intro rnd64_mono_pos) simp_all
    then show ?thesis by (simp add: rnd64_minus)
  qed
qed

lemma rne_tieI:
  assumes "x = of_int m + 1 / 2"
  shows "rne x = (if even m then m else m + 1)"
proof -
  have "\<lfloor>x\<rfloor> = m" unfolding assms by linarith
  then show ?thesis by (simp add: rne_def assms)
qed

lemma rnd64_rneI:
  assumes j: "j \<le> 1074"
    and lo: "2 ^ 52 \<le> \<bar>x\<bar> * 2 ^ j"
    and hi: "\<bar>x\<bar> * 2 ^ j < 2 ^ 53"
  shows "rnd64 x = of_int (rne (x * 2 ^ j)) / 2 ^ j"
proof -
  let ?e = "52 - int j"
  have x: "0 < \<bar>x\<bar>"
  proof (rule ccontr)
    assume "\<not> 0 < \<bar>x\<bar>"
    then have "\<bar>x\<bar> * 2 ^ j = 0" by simp
    then show False using lo by simp
  qed
  have pj: "(2::real) powr real j = 2 ^ j" by (simp add: powr_realpow)
  have p52: "(2::real) powr 52 = 2 ^ 52" by (simp del: power_numeral)
  have p53: "(2::real) powr 53 = 2 ^ 53" by (simp del: power_numeral)
  have "(2::real) powr (of_int ?e) = 2 powr (52 - real j)" by simp
  also have "\<dots> = 2 ^ 52 / 2 ^ j" by (simp only: powr_diff pj p52)
  finally have p: "(2::real) powr (of_int ?e) = 2 ^ 52 / 2 ^ j" .
  have "(2::real) powr (of_int ?e + 1) = 2 powr (53 - real j)" by simp
  also have "\<dots> = 2 ^ 53 / 2 ^ j" by (simp only: powr_diff pj p53)
  finally have p1: "(2::real) powr (of_int ?e + 1) = 2 ^ 53 / 2 ^ j" .
  have "2 powr (of_int ?e) \<le> \<bar>x\<bar>" unfolding p using lo by (simp add: field_simps)
  moreover have "\<bar>x\<bar> < 2 powr (of_int ?e + 1)" unfolding p1 using hi by (simp add: field_simps)
  ultimately have f: "\<lfloor>log 2 \<bar>x\<bar>\<rfloor> = ?e"
    using x by (simp add: floor_log_eq_powr_iff)
  have m: "max ?e (- 1022) = ?e" using j by simp
  have "(2::real) powr (of_int ?e - 52) = 2 powr (- real j)" by simp
  also have "\<dots> = 1 / 2 ^ j" by (simp only: powr_minus pj inverse_eq_divide)
  finally have u: "(2::real) powr (of_int ?e - 52) = 1 / 2 ^ j" .
  show ?thesis unfolding rnd64_def Let_def f m u by simp
qed

lemma rnd64_eqI:
  assumes "j \<le> 1074" "2 ^ 52 \<le> \<bar>x\<bar> * 2 ^ j" "\<bar>x\<bar> * 2 ^ j < 2 ^ 53"
    and "\<bar>x * 2 ^ j - of_int n\<bar> < 1 / 2"
  shows "rnd64 x = of_int n / 2 ^ j"
  using rnd64_rneI [OF assms(1-3)] rne_eqI [OF assms(4)] by simp

lemma round_f64_rneI:
  assumes j: "j \<le> 1074"
    and lo: "2 ^ 52 \<le> \<bar>x\<bar> * 2 ^ j"
    and hi: "\<bar>x\<bar> * 2 ^ j < 2 ^ 53"
  shows "round_f64 x = Fin (of_int (rne (x * 2 ^ j)) / 2 ^ j)"
proof -
  let ?n = "rne (x * 2 ^ j)"
  have r: "rnd64 x = of_int ?n / 2 ^ j" by (rule rnd64_rneI [OF assms])
  have "\<bar>x * 2 ^ j\<bar> < 2 ^ 53" using hi by (simp add: abs_mult)
  then have "\<bar>real_of_int ?n\<bar> < 2 ^ 53 + 1"
    using rne_bounds [of "x * 2 ^ j"] by linarith
  moreover have "\<bar>real_of_int ?n / 2 ^ j\<bar> \<le> \<bar>real_of_int ?n\<bar>"
  proof -
    have "\<bar>real_of_int ?n\<bar> / 2 ^ j \<le> \<bar>real_of_int ?n\<bar> / 1"
      by (intro divide_left_mono) simp_all
    then show ?thesis by simp
  qed
  moreover have "(2::real) ^ 53 + 1 < 2 ^ 1024" by simp
  ultimately have "\<bar>rnd64 x\<bar> < 2 ^ 1024" unfolding r by linarith
  then show ?thesis unfolding round_f64_def Let_def r [symmetric] by (simp add: abs_less_iff)
qed

lemma round_f64_eqI:
  assumes "j \<le> 1074" "2 ^ 52 \<le> \<bar>x\<bar> * 2 ^ j" "\<bar>x\<bar> * 2 ^ j < 2 ^ 53"
    and "\<bar>x * 2 ^ j - of_int n\<bar> < 1 / 2"
  shows "round_f64 x = Fin (of_int n / 2 ^ j)"
  using round_f64_rneI [OF assms(1-3)] rne_eqI [OF assms(4)] by simp

lemma round_f64_tieI:
  assumes "j \<le> 1074" "2 ^ 52 \<le> \<bar>x\<bar> * 2 ^ j" "\<bar>x\<bar> * 2 ^ j < 2 ^ 53"
    and "x * 2 ^ j = of_int m + 1 / 2"
  shows "round_f64 x = Fin (of_int (if even m then m else m + 1) / 2 ^ j)"
  using round_f64_rneI [OF assms(1-3)] rne_tieI [OF assms(4)] by simp


lemma round_f64_Fin:
  assumes "- (2 ^ 1024) < rnd64 x" "rnd64 x < 2 ^ 1024"
  shows "round_f64 x = Fin (rnd64 x)"
  using assms by (simp add: round_f64_def Let_def)

lemma round_f64_between:
  assumes a: "rnd64 a = a" and b: "rnd64 b = b"
    and ax: "a \<le> x" and xb: "x \<le> b"
    and la: "- (2 ^ 1024) < a" and lb: "b < 2 ^ 1024"
  shows "round_f64 x = Fin (rnd64 x) \<and> a \<le> rnd64 x \<and> rnd64 x \<le> b"
proof -
  have "rnd64 a \<le> rnd64 x" using ax by (rule rnd64_mono)
  then have 1: "a \<le> rnd64 x" unfolding a .
  have "rnd64 x \<le> rnd64 b" using xb by (rule rnd64_mono)
  then have 2: "rnd64 x \<le> b" unfolding b .
  have "round_f64 x = Fin (rnd64 x)"
    using 1 2 la lb by (intro round_f64_Fin) linarith+
  then show ?thesis using 1 2 by simp
qed

section \<open>Claims\<close>

text \<open>
  C1. For every input record with \<open>opt_type\<close> exactly \<open>''call''\<close>, the record that
  \<open>price_and_greeks_bsm\<close> returns has
  \<open>price = S0 * exp (- q * T) * N d1 - K * exp (- r * T) * N d2\<close>,
  \<open>delta = exp (- q * T) * N d1\<close>,
  \<open>theta_per_year = - S0 * exp (- q * T) * n d1 * sigma / (2 * sqrt T)
     + q * S0 * exp (- q * T) * N d1 - r * K * exp (- r * T) * N d2\<close>,
  \<open>rho_per_1 = K * T * exp (- r * T) * N d2\<close> and
  \<open>phi_per_1 = - T * S0 * exp (- q * T) * N d1\<close>, where \<open>T\<close> and \<open>sigma\<close> are the clamped
  values, \<open>d1 = (ln (S0 / K) + (r - q + 0.5 * sigma\<^sup>2) * T) / (sigma * sqrt T)\<close> and
  \<open>d2 = d1 - sigma * sqrt T\<close>.
\<close>

theorem call_formulas:
  assumes "opt_type inp = ''call''" and "price_and_greeks_bsm inp tb = Inr out"
  shows "let t = (if T inp < 1 / 10 ^ 6 then 1 / 10 ^ 6 else T inp);
             v = (if sigma inp < 1 / 10 ^ 8 then 1 / 10 ^ 8 else sigma inp);
             d1 = (ln (S0 inp / K inp) + (r inp - q inp + 0.5 * v\<^sup>2) * t) / (v * sqrt t);
             d2 = d1 - v * sqrt t
         in price out = S0 inp * exp (- q inp * t) * norm_cdf d1
                          - K inp * exp (- r inp * t) * norm_cdf d2
          \<and> delta out = exp (- q inp * t) * norm_cdf d1
          \<and> theta_per_year out =
               - S0 inp * exp (- q inp * t) * norm_pdf d1 * v / (2 * sqrt t)
               + q inp * S0 inp * exp (- q inp * t) * norm_cdf d1
               - r inp * K inp * exp (- r inp * t) * norm_cdf d2
          \<and> rho_per_1 out = K inp * t * exp (- r inp * t) * norm_cdf d2
          \<and> phi_per_1 out = - t * S0 inp * exp (- q inp * t) * norm_cdf d1"
  unfolding bsm_InrD(1) [OF assms(2)] using assms(1)
  by (simp add: bsm_closed_form_def Let_def eff_d1_def eff_d2_def spec_d1_def spec_d2_def
        clamped_T_def clamped_sigma_def)

theorem call_formulas_witness:
  "opt_type example_inputs = ''call''
   \<and> price_and_greeks_bsm example_inputs 365 = Inr (bsm_closed_form example_inputs 365)
   \<and> delta (bsm_closed_form example_inputs 365)
       = exp (- (1 / 100) * (1 / 2))
           * norm_cdf ((ln (100 / 100) + (3 / 100 - 1 / 100 + 0.5 * (1 / 5)\<^sup>2) * (1 / 2))
                        / (1 / 5 * sqrt (1 / 2)))"
proof -
  have h1: "opt_type example_inputs = ''call''" by (simp add: example_inputs_def)
  have h2: "price_and_greeks_bsm example_inputs 365 = Inr (bsm_closed_form example_inputs 365)"
    using example_returns [of "''call''"] by (simp add: example_inputs_def)
  show ?thesis using h1 h2 call_formulas [OF h1 h2]
    by (simp add: Let_def example_inputs_def)
qed



text \<open>
  C3, as stated, fails: the function raises. With the example inputs and
  \<open>theta_basis = 0\<close> the division \<open>theta / theta_basis\<close> raises ZeroDivisionError; with
  spot \<open>0\<close> the call \<open>math.log(S0 / K)\<close> raises ValueError; with strike \<open>0\<close> the division
  \<open>S0 / K\<close> raises ZeroDivisionError.
\<close>

theorem no_error_path_counterexample:
  "price_and_greeks_bsm example_inputs 0 = Inl ZeroDivisionError
   \<and> price_and_greeks_bsm (example_inputs\<lparr>S0 := 0\<rparr>) 365 = Inl ValueError
   \<and> price_and_greeks_bsm (example_inputs\<lparr>K := 0\<rparr>) 365 = Inl ZeroDivisionError"
  by (simp add: bsm_cases example_inputs_def)

text \<open>
  C3, amended. The function validates nothing and builds no error value of its own, but
  it does raise: \<open>S0 / K\<close> raises ZeroDivisionError when \<open>K = 0\<close>; otherwise \<open>math.log\<close>
  raises ValueError when \<open>S0 / K \<le> 0\<close>; and with \<open>theta_basis = 0\<close> no record is returned,
  since \<open>theta / theta_basis\<close> raises ZeroDivisionError if no earlier step has raised.
  These are not all the raises of the code: overflow and underflow of the floating-point
  arithmetic raise as well, outside this layer. An out-of-domain input returns a record
  when no step raises, as a negative spot with a negative strike does.
\<close>

theorem raises_on_bad_input:
  "(K inp = 0 \<longrightarrow> price_and_greeks_bsm inp tb = Inl ZeroDivisionError)
   \<and> (K inp \<noteq> 0 \<and> S0 inp / K inp \<le> 0 \<longrightarrow> price_and_greeks_bsm inp tb = Inl ValueError)
   \<and> (tb = 0 \<longrightarrow> (\<forall>out. price_and_greeks_bsm inp tb \<noteq> Inr out))"
  by (simp add: bsm_cases)

theorem raises_on_bad_input_witness:
  "K (example_inputs\<lparr>K := 0\<rparr>) = 0
   \<and> price_and_greeks_bsm (example_inputs\<lparr>K := 0\<rparr>) 365 = Inl ZeroDivisionError
   \<and> K (example_inputs\<lparr>S0 := 0\<rparr>) \<noteq> 0
   \<and> S0 (example_inputs\<lparr>S0 := 0\<rparr>) / K (example_inputs\<lparr>S0 := 0\<rparr>) \<le> 0
   \<and> price_and_greeks_bsm (example_inputs\<lparr>S0 := 0\<rparr>) 365 = Inl ValueError
   \<and> (\<forall>out. price_and_greeks_bsm example_inputs 0 \<noteq> Inr out)
   \<and> price_and_greeks_bsm (example_inputs\<lparr>S0 := - 100, K := - 100\<rparr>) 365
       = Inr (bsm_closed_form (example_inputs\<lparr>S0 := - 100, K := - 100\<rparr>) 365)"
proof -
  have a: "K (example_inputs\<lparr>K := 0\<rparr>) = 0" by simp
  have b: "K (example_inputs\<lparr>S0 := 0\<rparr>) \<noteq> 0"
    "S0 (example_inputs\<lparr>S0 := 0\<rparr>) / K (example_inputs\<lparr>S0 := 0\<rparr>) \<le> 0"
    by (simp_all add: example_inputs_def)
  have c: "price_and_greeks_bsm (example_inputs\<lparr>S0 := - 100, K := - 100\<rparr>) 365
       = Inr (bsm_closed_form (example_inputs\<lparr>S0 := - 100, K := - 100\<rparr>) 365)"
    by (rule bsm_returns) (simp_all add: example_inputs_def)
  show ?thesis
    using a b c raises_on_bad_input [of "example_inputs\<lparr>K := 0\<rparr>" 365]
      raises_on_bad_input [of "example_inputs\<lparr>S0 := 0\<rparr>" 365]
      raises_on_bad_input [of example_inputs 0]
    by blast
qed

text \<open>
  C4, as stated, fails: with \<open>T = 0\<close> the function still raises when the other inputs
  make it raise, here a zero strike.
\<close>

theorem clamp_never_raises_counterexample:
  "price_and_greeks_bsm (example_inputs\<lparr>K := 0, T := 0\<rparr>) 365 = Inl ZeroDivisionError"
  by (simp add: bsm_cases example_inputs_def)

text \<open>
  C4, amended. For every input, a \<open>T\<close> below \<open>1e-6\<close> gives exactly the result of
  \<open>T = 1e-6\<close> with the other parameters fixed: the same record field by field, or the
  same raise. So \<open>T = 0\<close> raises only where \<open>T = 1e-6\<close> does. Likewise a \<open>sigma\<close> below
  \<open>1e-8\<close> gives exactly the result of \<open>sigma = 1e-8\<close>.
\<close>

theorem clamp_below_floor:
  assumes "t < 1 / 10 ^ 6" "v < 1 / 10 ^ 8"
  shows "price_and_greeks_bsm (inp\<lparr>T := t\<rparr>) tb = price_and_greeks_bsm (inp\<lparr>T := 1 / 10 ^ 6\<rparr>) tb
       \<and> price_and_greeks_bsm (inp\<lparr>sigma := v\<rparr>) tb
           = price_and_greeks_bsm (inp\<lparr>sigma := 1 / 10 ^ 8\<rparr>) tb"
proof -
  have a: "price_and_greeks_bsm (inp\<lparr>T := t\<rparr>) tb
             = price_and_greeks_bsm (inp\<lparr>T := 1 / 10 ^ 6\<rparr>) tb"
    unfolding bsm_cases [of "inp\<lparr>T := t\<rparr>"] bsm_cases [of "inp\<lparr>T := 1 / 10 ^ 6\<rparr>"]
      bsm_closed_form_T_floor [OF assms(1)]
    by simp
  have b: "price_and_greeks_bsm (inp\<lparr>sigma := v\<rparr>) tb
             = price_and_greeks_bsm (inp\<lparr>sigma := 1 / 10 ^ 8\<rparr>) tb"
    unfolding bsm_cases [of "inp\<lparr>sigma := v\<rparr>"]
      bsm_cases [of "inp\<lparr>sigma := 1 / 10 ^ 8\<rparr>"]
      bsm_closed_form_sigma_floor [OF assms(2)]
    by simp
  show ?thesis using a b by simp
qed

theorem clamp_below_floor_witness:
  "(0 :: real) < 1 / 10 ^ 6 \<and> (0 :: real) < 1 / 10 ^ 8
   \<and> price_and_greeks_bsm (example_inputs\<lparr>T := 0\<rparr>) 365
       = price_and_greeks_bsm (example_inputs\<lparr>T := 1 / 10 ^ 6\<rparr>) 365
   \<and> price_and_greeks_bsm (example_inputs\<lparr>sigma := 0\<rparr>) 365
       = price_and_greeks_bsm (example_inputs\<lparr>sigma := 1 / 10 ^ 8\<rparr>) 365
   \<and> price_and_greeks_bsm (example_inputs\<lparr>T := 0\<rparr>) 365
       = Inr (bsm_closed_form (example_inputs\<lparr>T := 0\<rparr>) 365)"
proof -
  have h: "(0 :: real) < 1 / 10 ^ 6" "(0 :: real) < 1 / 10 ^ 8" by simp_all
  have g: "price_and_greeks_bsm (example_inputs\<lparr>T := 0\<rparr>) 365
       = Inr (bsm_closed_form (example_inputs\<lparr>T := 0\<rparr>) 365)"
    by (rule bsm_returns_valid) (simp_all add: example_inputs_def)
  show ?thesis using h g clamp_below_floor [OF h, of example_inputs 365] by blast
qed

text \<open>
  C5. Every output record returned satisfies the unit conversions among its own fields:
  \<open>vega_per_volpt = vega_per_vol * 0.01\<close>, \<open>rho_per_bp = rho_per_1 / 10000\<close>,
  \<open>phi_per_bp = phi_per_1 / 10000\<close> and \<open>theta_per_day = theta_per_year / theta_basis\<close>;
  a record is returned only for \<open>theta_basis \<noteq> 0\<close>.
\<close>

theorem unit_conversions:
  assumes "price_and_greeks_bsm inp tb = Inr out"
  shows "vega_per_volpt out = vega_per_vol out * 0.01
       \<and> rho_per_bp out = rho_per_1 out / 10000
       \<and> phi_per_bp out = phi_per_1 out / 10000
       \<and> theta_per_day out = theta_per_year out / real_of_int tb
       \<and> tb \<noteq> 0"
  unfolding bsm_InrD(1) [OF assms] using bsm_InrD(4) [OF assms]
  by (simp add: bsm_closed_form_def Let_def)

theorem unit_conversions_witness:
  "price_and_greeks_bsm example_inputs 365 = Inr (bsm_closed_form example_inputs 365)
   \<and> theta_per_day (bsm_closed_form example_inputs 365)
       = theta_per_year (bsm_closed_form example_inputs 365) / 365
   \<and> rho_per_bp (bsm_closed_form example_inputs 365)
       = rho_per_1 (bsm_closed_form example_inputs 365) / 10000"
proof -
  have h: "price_and_greeks_bsm example_inputs 365 = Inr (bsm_closed_form example_inputs 365)"
    using example_returns [of "''call''"] by (simp add: example_inputs_def)
  show ?thesis using h unit_conversions [OF h] by simp
qed

text \<open>
  C6. For every input whose \<open>opt_type\<close> is not exactly \<open>''call''\<close>, the result is the
  result for \<open>''put''\<close>, with no validation and no signal, and the record returned has
  the put formulas for price, delta, theta, rho and phi.
\<close>

theorem non_call_uses_put_formulas:
  assumes "opt_type inp \<noteq> ''call''"
  shows "price_and_greeks_bsm inp tb = price_and_greeks_bsm (inp\<lparr>opt_type := ''put''\<rparr>) tb
       \<and> (\<forall>out. price_and_greeks_bsm inp tb = Inr out \<longrightarrow>
            (let t = (if T inp < 1 / 10 ^ 6 then 1 / 10 ^ 6 else T inp);
                 v = (if sigma inp < 1 / 10 ^ 8 then 1 / 10 ^ 8 else sigma inp);
                 d1 = (ln (S0 inp / K inp) + (r inp - q inp + 0.5 * v\<^sup>2) * t) / (v * sqrt t);
                 d2 = d1 - v * sqrt t
             in price out = K inp * exp (- r inp * t) * norm_cdf (- d2)
                              - S0 inp * exp (- q inp * t) * norm_cdf (- d1)
              \<and> delta out = exp (- q inp * t) * norm_cdf d1 - exp (- q inp * t)
              \<and> theta_per_year out =
                   - S0 inp * exp (- q inp * t) * norm_pdf d1 * v / (2 * sqrt t)
                   - q inp * S0 inp * exp (- q inp * t) * norm_cdf (- d1)
                   + r inp * K inp * exp (- r inp * t) * norm_cdf (- d2)
              \<and> rho_per_1 out = - K inp * t * exp (- r inp * t) * norm_cdf (- d2)
              \<and> phi_per_1 out = t * S0 inp * exp (- q inp * t) * norm_cdf (- d1)))"
proof -
  have eq: "bsm_closed_form inp tb = bsm_closed_form (inp\<lparr>opt_type := ''put''\<rparr>) tb"
    using assms by (simp add: bsm_closed_form_def eff_d1_def eff_d2_def Let_def)
  have a: "price_and_greeks_bsm inp tb = price_and_greeks_bsm (inp\<lparr>opt_type := ''put''\<rparr>) tb"
    unfolding bsm_cases [of inp] bsm_cases [of "inp\<lparr>opt_type := ''put''\<rparr>"] eq by simp
  have b: "let t = (if T inp < 1 / 10 ^ 6 then 1 / 10 ^ 6 else T inp);
               v = (if sigma inp < 1 / 10 ^ 8 then 1 / 10 ^ 8 else sigma inp);
               d1 = (ln (S0 inp / K inp) + (r inp - q inp + 0.5 * v\<^sup>2) * t) / (v * sqrt t);
               d2 = d1 - v * sqrt t
           in price out = K inp * exp (- r inp * t) * norm_cdf (- d2)
                            - S0 inp * exp (- q inp * t) * norm_cdf (- d1)
            \<and> delta out = exp (- q inp * t) * norm_cdf d1 - exp (- q inp * t)
            \<and> theta_per_year out =
                 - S0 inp * exp (- q inp * t) * norm_pdf d1 * v / (2 * sqrt t)
                 - q inp * S0 inp * exp (- q inp * t) * norm_cdf (- d1)
                 + r inp * K inp * exp (- r inp * t) * norm_cdf (- d2)
            \<and> rho_per_1 out = - K inp * t * exp (- r inp * t) * norm_cdf (- d2)
            \<and> phi_per_1 out = t * S0 inp * exp (- q inp * t) * norm_cdf (- d1)"
    if "price_and_greeks_bsm inp tb = Inr out" for out
    unfolding bsm_InrD(1) [OF that] using assms
    by (simp add: bsm_closed_form_def Let_def eff_d1_def eff_d2_def spec_d1_def spec_d2_def
          clamped_T_def clamped_sigma_def)
  show ?thesis using a b by blast
qed

theorem non_call_uses_put_formulas_witness:
  "opt_type (example_inputs\<lparr>opt_type := ''Call''\<rparr>) \<noteq> ''call''
   \<and> price_and_greeks_bsm (example_inputs\<lparr>opt_type := ''Call''\<rparr>) 365
       = price_and_greeks_bsm (example_inputs\<lparr>opt_type := ''put''\<rparr>) 365
   \<and> price_and_greeks_bsm (example_inputs\<lparr>opt_type := ''Call''\<rparr>) 365
       = Inr (bsm_closed_form (example_inputs\<lparr>opt_type := ''Call''\<rparr>) 365)
   \<and> delta (bsm_closed_form (example_inputs\<lparr>opt_type := ''Call''\<rparr>) 365)
       = exp (- (1 / 100) * (1 / 2))
           * norm_cdf ((ln (100 / 100) + (3 / 100 - 1 / 100 + 0.5 * (1 / 5)\<^sup>2) * (1 / 2))
                        / (1 / 5 * sqrt (1 / 2)))
         - exp (- (1 / 100) * (1 / 2))"
proof -
  have h: "opt_type (example_inputs\<lparr>opt_type := ''Call''\<rparr>) \<noteq> ''call''" by simp
  have g: "price_and_greeks_bsm (example_inputs\<lparr>opt_type := ''Call''\<rparr>) 365
       = Inr (bsm_closed_form (example_inputs\<lparr>opt_type := ''Call''\<rparr>) 365)"
    by (rule example_returns)
  show ?thesis
    using h g non_call_uses_put_formulas [OF h, of 365]
    by (simp add: Let_def example_inputs_def)
qed

text \<open>
  C7, as stated, fails. At \<open>S0 = 100\<close>, \<open>K = 100\<close>, \<open>T = 1e200\<close>, \<open>sigma = 0.2\<close>,
  \<open>r = 0.03\<close>, \<open>q = -1e200\<close> the product \<open>-q * T\<close> overflows to \<open>inf\<close>, \<open>math.exp(inf)\<close>
  is \<open>inf\<close> and \<open>norm_cdf(d1)\<close> is \<open>1.0\<close>; no step raises. The put delta is
  \<open>inf * 1.0 - inf\<close>, a NaN, and neither of its bounds holds.
\<close>

theorem delta_nan_counterexample:
  "delta_put_f64 PInf (Fin 1) = NaN
   \<and> \<not> fle (fneg PInf) (delta_put_f64 PInf (Fin 1))
   \<and> \<not> fle (delta_put_f64 PInf (Fin 1)) (Fin 0)"
  by (simp add: delta_put_f64_def)

text \<open>
  C7, amended. Whenever the computed \<open>exp_qT\<close> is a finite binary64 number and the
  computed \<open>N_d1\<close> is a number between \<open>0\<close> and \<open>1\<close>, the deltas the code computes
  satisfy \<open>0 \<le> delta_call \<le> exp_qT\<close> and \<open>- exp_qT \<le> delta_put \<le> 0\<close>: rounding to
  nearest cannot cross \<open>0\<close>, \<open>exp_qT\<close> or \<open>- exp_qT\<close>.
\<close>

theorem delta_bounds_f64:
  assumes e: "rnd64 e = e" and e0: "0 \<le> e" and e1: "e < 2 ^ 1024"
    and n0: "0 \<le> n" and n1: "n \<le> 1"
  shows "fle (Fin 0) (delta_call_f64 (Fin e) (Fin n))
       \<and> fle (delta_call_f64 (Fin e) (Fin n)) (Fin e)
       \<and> fle (fneg (Fin e)) (delta_put_f64 (Fin e) (Fin n))
       \<and> fle (delta_put_f64 (Fin e) (Fin n)) (Fin 0)"
proof -
  have me: "rnd64 (- e) = - e" by (simp add: rnd64_minus e)
  have x0: "0 \<le> e * n" using e0 n0 by simp
  have x1: "e * n \<le> e" using e0 n1 by (simp add: mult_left_le)
  have c: "round_f64 (e * n) = Fin (rnd64 (e * n)) \<and> 0 \<le> rnd64 (e * n) \<and> rnd64 (e * n) \<le> e"
    using x0 x1 e1 by (intro round_f64_between rnd64_zero e) simp_all
  let ?c = "rnd64 (e * n)"
  have y0: "- e \<le> ?c - e" using c by simp
  have y1: "?c - e \<le> 0" using c by simp
  have p: "round_f64 (?c - e) = Fin (rnd64 (?c - e)) \<and> - e \<le> rnd64 (?c - e)
            \<and> rnd64 (?c - e) \<le> 0"
    using y0 y1 e0 e1 by (intro round_f64_between rnd64_zero me) simp_all
  show ?thesis using c p by (simp add: delta_call_f64_def delta_put_f64_def)
qed

theorem delta_bounds_f64_witness:
  "rnd64 (8962275661042315 / 2 ^ 53) = 8962275661042315 / 2 ^ 53
   \<and> (0::real) \<le> 8962275661042315 / 2 ^ 53 \<and> (8962275661042315 / 2 ^ 53 :: real) < 2 ^ 1024
   \<and> (0::real) \<le> 669193862748179 / 2 ^ 51 \<and> (669193862748179 / 2 ^ 51 :: real) \<le> 1
   \<and> fle (Fin 0) (delta_call_f64 (Fin (8962275661042315 / 2 ^ 53)) (Fin (669193862748179 / 2 ^ 51)))
   \<and> fle (delta_call_f64 (Fin (8962275661042315 / 2 ^ 53)) (Fin (669193862748179 / 2 ^ 51)))
         (Fin (8962275661042315 / 2 ^ 53))
   \<and> fle (fneg (Fin (8962275661042315 / 2 ^ 53)))
         (delta_put_f64 (Fin (8962275661042315 / 2 ^ 53)) (Fin (669193862748179 / 2 ^ 51)))
   \<and> fle (delta_put_f64 (Fin (8962275661042315 / 2 ^ 53)) (Fin (669193862748179 / 2 ^ 51)))
         (Fin 0)"
proof -
  have h1: "rnd64 (8962275661042315 / 2 ^ 53) = 8962275661042315 / 2 ^ 53"
    using rnd64_eqI [of 53 "8962275661042315 / 2 ^ 53" 8962275661042315] by simp
  have h2: "(0::real) \<le> 8962275661042315 / 2 ^ 53" by simp
  have h3: "(8962275661042315 / 2 ^ 53 :: real) < 2 ^ 1024" by simp
  have h4: "(0::real) \<le> 669193862748179 / 2 ^ 51" by simp
  have h5: "(669193862748179 / 2 ^ 51 :: real) \<le> 1" by simp
  show ?thesis
    using h1 h2 h3 h4 h5 delta_bounds_f64 [OF h1 h2 h3 h4 h5] by blast
qed




text \<open>
  C9. For every real \<open>x\<close>, \<open>norm_cdf x = 0.5 * (1 + erf (x / sqrt 2))\<close> and the value lies
  in the closed interval from \<open>0\<close> to \<open>1\<close>. The function is total: it has no failure
  condition.
\<close>

theorem norm_cdf_range:
  "norm_cdf x = 0.5 * (1 + erf (x / sqrt 2)) \<and> 0 \<le> norm_cdf x \<and> norm_cdf x \<le> 1"
  using norm_cdf_bounds [of x] by (simp add: norm_cdf_def)

text \<open>
  C10, as stated, fails in its second form. At \<open>S0 = 100\<close>, \<open>K = 110\<close>, \<open>T = 0.5\<close>,
  \<open>sigma = 0.2\<close>, \<open>r = 0.03\<close>, \<open>q = 0.01\<close> the function holds
  \<open>exp_qT = 0.9950124791926823\<close> and \<open>N_d1 = 0.29718177374435006\<close>; the call delta is
  \<open>0.2956995734642445\<close>, the put delta \<open>-0.6993129057284377\<close>, and their difference is
  \<open>0.9950124791926822\<close>, not \<open>exp_qT\<close>.
\<close>

theorem delta_difference_counterexample:
  "fsub (delta_call_f64 (Fin (8962275661042315 / 2 ^ 53)) (Fin (669193862748179 / 2 ^ 51)))
        (delta_put_f64 (Fin (8962275661042315 / 2 ^ 53)) (Fin (669193862748179 / 2 ^ 51)))
     \<noteq> Fin (8962275661042315 / 2 ^ 53)"
proof -
  have d1: "fmul (Fin (8962275661042315 / 2 ^ 53)) (Fin (669193862748179 / 2 ^ 51)) = Fin (5326849955468745 / 2 ^ 54)"
    using round_f64_eqI [of 54 "(8962275661042315 / 2 ^ 53) * (669193862748179 / 2 ^ 51)" "5326849955468745"] by simp
  have d2: "fsub (Fin (5326849955468745 / 2 ^ 54)) (Fin (8962275661042315 / 2 ^ 53)) = Fin (- (3149425341653971 / 2 ^ 52))"
    using round_f64_tieI [of 53 "(5326849955468745 / 2 ^ 54) - (8962275661042315 / 2 ^ 53)" "- 6298850683307943"] by simp
  have d3: "fsub (Fin (5326849955468745 / 2 ^ 54)) (Fin (- (3149425341653971 / 2 ^ 52))) = Fin (4481137830521157 / 2 ^ 52)"
    using round_f64_tieI [of 53 "(5326849955468745 / 2 ^ 54) - (- (3149425341653971 / 2 ^ 52))" "8962275661042314"] by simp
  show ?thesis
    unfolding delta_call_f64_def delta_put_f64_def d1 d2 d3 by simp
qed

text \<open>
  C10, amended. Whenever both calls return, the put delta is the call delta minus
  \<open>exp (- q * T)\<close> (\<open>T\<close> clamped), the very subtraction the put branch performs on the
  same product, and gamma and vega\_per\_vol are the same for both option types. The
  rearranged form \<open>delta_call - delta_put = exp (- q * T)\<close> holds up to rounding only.
\<close>

theorem delta_put_call_relation:
  assumes "price_and_greeks_bsm (inp\<lparr>opt_type := ''call''\<rparr>) tb = Inr c"
    and "price_and_greeks_bsm (inp\<lparr>opt_type := ''put''\<rparr>) tb = Inr p"
  shows "delta p = delta c - exp (- q inp * (if T inp < 1 / 10 ^ 6 then 1 / 10 ^ 6 else T inp))
       \<and> gamma c = gamma p
       \<and> vega_per_vol c = vega_per_vol p"
  unfolding bsm_InrD(1) [OF assms(1)] bsm_InrD(1) [OF assms(2)]
  by (simp add: bsm_closed_form_def Let_def eff_d1_def eff_d2_def clamped_T_def)

theorem delta_put_call_relation_witness:
  "price_and_greeks_bsm (example_inputs\<lparr>opt_type := ''call''\<rparr>) 365
     = Inr (bsm_closed_form (example_inputs\<lparr>opt_type := ''call''\<rparr>) 365)
   \<and> price_and_greeks_bsm (example_inputs\<lparr>opt_type := ''put''\<rparr>) 365
     = Inr (bsm_closed_form (example_inputs\<lparr>opt_type := ''put''\<rparr>) 365)
   \<and> delta (bsm_closed_form (example_inputs\<lparr>opt_type := ''put''\<rparr>) 365)
       = delta (bsm_closed_form (example_inputs\<lparr>opt_type := ''call''\<rparr>) 365)
         - exp (- (1 / 100) * (1 / 2))
   \<and> gamma (bsm_closed_form (example_inputs\<lparr>opt_type := ''call''\<rparr>) 365)
       = gamma (bsm_closed_form (example_inputs\<lparr>opt_type := ''put''\<rparr>) 365)"
proof -
  have c: "price_and_greeks_bsm (example_inputs\<lparr>opt_type := ''call''\<rparr>) 365
     = Inr (bsm_closed_form (example_inputs\<lparr>opt_type := ''call''\<rparr>) 365)"
    by (rule example_returns)
  have p: "price_and_greeks_bsm (example_inputs\<lparr>opt_type := ''put''\<rparr>) 365
     = Inr (bsm_closed_form (example_inputs\<lparr>opt_type := ''put''\<rparr>) 365)"
    by (rule example_returns)
  have t: "(if T example_inputs < 1 / 10 ^ 6 then 1 / 10 ^ 6 else T example_inputs) = 1 / 2"
    by (simp add: example_inputs_def)
  have y: "q example_inputs = 1 / 100"
    by (simp add: example_inputs_def)
  show ?thesis
    using c p delta_put_call_relation [OF c p] unfolding t y by simp
qed

end
